theory Spec2Isabelle
  imports Main "HOL-Library.Sublist"
begin

section \<open>Text\<close>

text \<open>
  A Python \<open>str\<close> is a sequence of Unicode code points. The complaint's description is
  the one text whose characters the program inspects, so it is held as the list of its
  code points. Every other text (status values, department names, keyword phrases) is
  only compared with ASCII literals or copied, and is held as a \<open>string\<close>.
\<close>

type_synonym unicode = "nat list"

definition str :: "string \<Rightarrow> unicode" where
  "str s = map of_char s"

text \<open>
  \<open>str.lower()\<close>, one code point at a time. \<open>A\<close>..\<open>Z\<close> are the only ASCII code points
  it changes. Beyond ASCII exactly two code points have a lowercase form that holds an
  ASCII letter: U+0130 (capital I with dot above), which becomes \<open>i\<close> followed by the
  combining dot U+0307, and U+212A (the Kelvin sign), which becomes \<open>k\<close>. Every other
  non-ASCII code point lowers to non-ASCII code points; those are written here as the
  code point itself, because \<open>clean\<close> replaces each of them by a space and then
  collapses the spaces, so neither their value nor their number is observable.
\<close>

definition lower_cp :: "nat \<Rightarrow> nat list" where
  "lower_cp c =
     (if 65 \<le> c \<and> c \<le> 90 then [c + 32]
      else if c = 304 then [105, 775]
      else if c = 8490 then [107]
      else [c])"

definition lower :: "unicode \<Rightarrow> unicode" where
  "lower text = concat (map lower_cp text)"

text \<open>
  \<open>re.sub(r"[^a-z ]", " ", text)\<close>: every code point that is not one of \<open>a\<close>..\<open>z\<close>
  (97..122) or the space (32) becomes a space. What is left is ASCII, and is a
  \<open>string\<close> from here on.
\<close>

definition sub_not_az_space :: "unicode \<Rightarrow> string" where
  "sub_not_az_space text =
     map (\<lambda>c. if (97 \<le> c \<and> c \<le> 122) \<or> c = 32 then char_of c else CHR '' '') text"

text \<open>
  The characters that the pattern \<open>\s\<close> matches and that \<open>str.strip()\<close> removes,
  among the code points below 256: tab, line feed, vertical tab, form feed, carriage
  return, the four separators 28..31, the space, next line (133) and the no-break
  space (160). Where \<open>clean\<close> uses them the text holds \<open>a\<close>..\<open>z\<close> and spaces only.
\<close>

definition isspace :: "char \<Rightarrow> bool" where
  "isspace c = (of_char c \<in> {9, 10, 11, 12, 13, 28, 29, 30, 31, 32, 133, 160 :: nat})"

text \<open>
  \<open>re.sub(r"\s+", " ", text)\<close>: scanning from the left, each maximal run of whitespace
  is replaced by one space.
\<close>

function sub_spaces :: "string \<Rightarrow> string" where
  "sub_spaces [] = []"
| "sub_spaces (c # cs) =
     (if isspace c then CHR '' '' # sub_spaces (dropWhile isspace cs)
      else c # sub_spaces cs)"
  by pat_completeness auto
termination
  by (relation "measure length") (auto simp: less_Suc_eq_le length_dropWhile_le)

definition lstrip :: "string \<Rightarrow> string" where
  "lstrip s = dropWhile isspace s"

definition rstrip :: "string \<Rightarrow> string" where
  "rstrip s = rev (dropWhile isspace (rev s))"

definition strip :: "string \<Rightarrow> string" where
  "strip s = rstrip (lstrip s)"

definition clean :: "unicode \<Rightarrow> string" where
  "clean text = strip (sub_spaces (sub_not_az_space (lower text)))"

text \<open>The characters \<open>a\<close>..\<open>z\<close> and the space, by code point.\<close>

definition az_or_space :: "char \<Rightarrow> bool" where
  "az_or_space c = (c = CHR '' '' \<or> (97 \<le> (of_char c :: nat) \<and> (of_char c :: nat) \<le> 122))"

text \<open>
  The specification's wording of the last two steps, for comparison with \<open>clean\<close>:
  the text is cut into its words, the maximal runs of characters that are not
  whitespace, and the words are joined by single spaces.
\<close>

function split_words :: "string \<Rightarrow> string list" where
  "split_words [] = []"
| "split_words (c # cs) =
     (if isspace c then split_words cs
      else (c # takeWhile (\<lambda>x. \<not> isspace x) cs)
             # split_words (dropWhile (\<lambda>x. \<not> isspace x) cs))"
  by pat_completeness auto
termination
  by (relation "measure length") (auto simp: less_Suc_eq_le length_dropWhile_le)

fun join_words :: "string list \<Rightarrow> string" where
  "join_words [] = []"
| "join_words [w] = w"
| "join_words (w # v # ws) = w @ CHR '' '' # join_words (v # ws)"

section \<open>Keyword tables\<close>

text \<open>
  \<open>KEYWORDS\<close> and \<open>PRIORITY_KEYWORDS\<close> are dict literals. A dict keeps its keys in
  insertion order and holds each key once, so a dict is an association list with
  distinct keys, in the order of the literal.
\<close>

definition KEYWORDS :: "(string \<times> string list) list" where
  "KEYWORDS =
     [(''Water'',
        [''water'', ''supply'', ''no water'', ''pipeline'', ''pipe'', ''tap'',
         ''pressure'', ''tank'', ''leak'', ''leakage'', ''dirty water'',
         ''drinking water'', ''water shortage'', ''manhole'', ''open manhole'']),
      (''Electricity'',
        [''electric'', ''electricity'', ''power'', ''current'', ''light'',
         ''lights'', ''streetlight'', ''wire'', ''spark'', ''shock'',
         ''transformer'', ''pole'', ''meter'', ''voltage'', ''power cut'',
         ''short circuit'']),
      (''Municipality'',
        [''garbage'', ''waste'', ''dump'', ''dumping'', ''drain'', ''drains'',
         ''sewer'', ''sewage'', ''dirty'', ''smell'', ''mosquito'',
         ''sanitation'', ''toilet'', ''dustbin'']),
      (''PWD'',
        [''road'', ''roads'', ''pothole'', ''potholes'', ''bridge'',
         ''flyover'', ''highway'', ''footpath'', ''divider'', ''culvert'',
         ''crack'', ''collapse'', ''asphalt'', ''construction'',
         ''speed breaker'']),
      (''Police'',
        [''theft'', ''stolen'', ''robbery'', ''fight'', ''fighting'',
         ''quarrel'', ''harass'', ''harassment'', ''eve teasing'', ''crime'',
         ''criminal'', ''threat'', ''drunk'', ''alcohol'', ''drug'', ''noise'',
         ''loud'', ''disturbance'', ''security'', ''unsafe'']),
      (''Traffic'',
        [''traffic'', ''signal'', ''signals'', ''parking'', ''jam'',
         ''congestion'', ''junction'', ''crossing'', ''wrong side'',
         ''accident'', ''rash driving'', ''speeding'', ''bus stop'', ''lane''])]"

definition PRIORITY_KEYWORDS :: "(string \<times> string list) list" where
  "PRIORITY_KEYWORDS =
     [(''High'',
        [''live wire'', ''electric shock'', ''fire'', ''big jam'', ''collapse'',
         ''fallen'', ''burst'', ''open manhole'', ''accident'', ''danger'',
         ''emergency'', ''attack'', ''fight'', ''theft'']),
      (''Medium'',
        [''not working'', ''damaged'', ''leak'', ''overflow'', ''blocked'',
         ''frequent'', ''low pressure'', ''delay'']),
      (''Low'',
        [''dirty'', ''dust'', ''small'', ''minor'', ''slow'', ''dim'',
         ''maintenance''])]"

section \<open>Scoring\<close>

datatype error = ValueError | KeyError | TypeError

text \<open>\<open>k in text\<close> on two strings: \<open>k\<close> occurs in \<open>text\<close> as a contiguous substring.\<close>

fun py_in :: "string \<Rightarrow> string \<Rightarrow> bool" where
  "py_in k [] = (k = [])"
| "py_in k (c # cs) = (prefix k (c # cs) \<or> py_in k cs)"

text \<open>\<open>sum(1 for k in keywords if k in text)\<close>\<close>

definition keyword_score :: "string \<Rightarrow> string list \<Rightarrow> int" where
  "keyword_score text keywords = sum_list (map (\<lambda>k. 1) (filter (\<lambda>k. py_in k text) keywords))"

text \<open>
  The dict comprehension \<open>{d: keyword_score(text, k) for d, k in table.items()}\<close> that
  both predict functions build, here with the table as a parameter.
\<close>

definition scores_of :: "(string \<times> string list) list \<Rightarrow> string \<Rightarrow> (string \<times> int) list" where
  "scores_of table text = map (\<lambda>(d, k). (d, keyword_score text k)) table"

text \<open>
  \<open>max(scores, key=scores.get)\<close>: \<open>max\<close> walks the keys of the dict in order, keeps the
  first key as the best so far, and replaces it only by a key whose value is strictly
  greater; on an empty dict it raises \<open>ValueError\<close>. The value \<open>scores.get\<close> gives for
  a key is the second component of that key's item.
\<close>

fun max_loop :: "'k \<Rightarrow> int \<Rightarrow> ('k \<times> int) list \<Rightarrow> 'k" where
  "max_loop maxitem maxval [] = maxitem"
| "max_loop maxitem maxval ((item, val) # rest) =
     (if val > maxval then max_loop item val rest else max_loop maxitem maxval rest)"

definition py_max :: "('k \<times> int) list \<Rightarrow> error + 'k" where
  "py_max scores =
     (case scores of [] \<Rightarrow> Inl ValueError | (item, val) # rest \<Rightarrow> Inr (max_loop item val rest))"

text \<open>
  The specification's wording of the choice: index \<open>i\<close> is the first category, in the
  order of the table, whose score is the greatest.
\<close>

definition first_max :: "(string \<times> string list) list \<Rightarrow> string \<Rightarrow> nat \<Rightarrow> bool" where
  "first_max table text i =
     (i < length table
      \<and> (\<forall>j<length table. keyword_score text (snd (table ! j)) \<le> keyword_score text (snd (table ! i)))
      \<and> (\<forall>j<i. keyword_score text (snd (table ! j)) < keyword_score text (snd (table ! i))))"

text \<open>\<open>scores[best]\<close> raises \<open>KeyError\<close> on a key that is missing.\<close>

definition predict_department :: "string \<Rightarrow> error + (string \<times> int)" where
  "predict_department text =
     (let scores = scores_of KEYWORDS text in
      case py_max scores of
        Inl e \<Rightarrow> Inl e
      | Inr best \<Rightarrow>
          (case map_of scores best of
             None \<Rightarrow> Inl KeyError
           | Some s \<Rightarrow> Inr (best, s * 20)))"

definition predict_priority :: "string \<Rightarrow> error + (string \<times> int)" where
  "predict_priority text =
     (let scores = scores_of PRIORITY_KEYWORDS text in
      case py_max scores of
        Inl e \<Rightarrow> Inl e
      | Inr best \<Rightarrow>
          (case map_of scores best of
             None \<Rightarrow> Inl KeyError
           | Some s \<Rightarrow> Inr (best, s * 25)))"

section \<open>Time\<close>

text \<open>
  A \<open>datetime\<close> is its wall-clock reading, counted in microseconds, and its \<open>tzinfo\<close>:
  \<open>None\<close> for a naive value, the UTC offset in microseconds for an aware one. The
  years 1..9999 that bound a Python \<open>datetime\<close> are not modelled: every time the
  program adds to is a reading of the system clock.
\<close>

record datetime =
  wall :: int
  tzinfo :: "int option"

definition timedelta :: "int \<Rightarrow> int \<Rightarrow> int" where
  "timedelta days hours = (days * 86400 + hours * 3600) * 1000000"

definition dt_add :: "datetime \<Rightarrow> int \<Rightarrow> datetime" where
  "dt_add t delta = t\<lparr>wall := wall t + delta\<rparr>"

definition replace_tzinfo :: "datetime \<Rightarrow> int option \<Rightarrow> datetime" where
  "replace_tzinfo t tz = t\<lparr>tzinfo := tz\<rparr>"

text \<open>
  \<open>a > b\<close> on two datetimes: naive values compare by wall clock, aware values by
  instant, and a naive value against an aware one raises \<open>TypeError\<close>.
\<close>

definition dt_gt :: "datetime \<Rightarrow> datetime \<Rightarrow> error + bool" where
  "dt_gt a b =
     (case (tzinfo a, tzinfo b) of
        (None, None) \<Rightarrow> Inr (wall a > wall b)
      | (Some oa, Some ob) \<Rightarrow> Inr (wall a - oa > wall b - ob)
      | _ \<Rightarrow> Inl TypeError)"

section \<open>The record store and the clock\<close>

text \<open>
  An entry of a complaint's \<open>actions\<close> log. The program stores the timestamp as the
  text \<open>isoformat()\<close> gives; the entry keeps the time that text is made from.
\<close>

record action_entry =
  entry_action :: string
  entry_timestamp :: datetime
  entry_by :: string

datatype fieldval =
    VStr string
  | VInt int
  | VBool bool
  | VTime datetime
  | VActions "action_entry list"

text \<open>
  The snapshot of a complaint that a change event carries (\<open>doc.id\<close> and
  \<open>doc.to_dict()\<close>), with the fields the program reads. A field that the document
  does not have is \<open>None\<close>, which is what \<open>data.get\<close> gives for it; a field that it
  has is of the type the complaint's data model gives it: a text, a timestamp, a list
  of entries.
\<close>

record document =
  doc_id :: string
  status :: "string option"
  description :: "unicode option"
  actions :: "action_entry list option"
  deadline :: "datetime option"

datatype change_type = ADDED | MODIFIED | REMOVED

text \<open>
  What the program acts on besides its arguments: the system clock, as the sequence of
  readings that successive calls of \<open>datetime.now()\<close> return, and the record store, as
  the list of the partial updates issued so far (document id and the dict of fields).
  What the program prints is not modelled, nor is a store call that fails.
\<close>

record env =
  clock :: "nat \<Rightarrow> int"
  reads :: nat
  issued :: "(string \<times> (string \<times> fieldval) list) list"

definition datetime_now :: "env \<Rightarrow> datetime \<times> env" where
  "datetime_now e = (\<lparr>wall = clock e (reads e), tzinfo = None\<rparr>, e\<lparr>reads := Suc (reads e)\<rparr>)"

definition db_update :: "string \<Rightarrow> (string \<times> fieldval) list \<Rightarrow> env \<Rightarrow> env" where
  "db_update ident data e = e\<lparr>issued := issued e @ [(ident, data)]\<rparr>"

section \<open>Deadline and overdue\<close>

definition set_deadline :: "string \<Rightarrow> env \<Rightarrow> datetime \<times> env" where
  "set_deadline priority e =
     (let (now, e') = datetime_now e in
      if priority = ''High'' then (dt_add now (timedelta 0 24), e')
      else if priority = ''Medium'' then (dt_add now (timedelta 0 72), e')
      else (dt_add now (timedelta 7 0), e'))"

definition check_overdue :: "datetime option \<Rightarrow> env \<Rightarrow> (error + bool) \<times> env" where
  "check_overdue deadline_timestamp e =
     (case deadline_timestamp of
        None \<Rightarrow> (Inr False, e)
      | Some ts \<Rightarrow>
          (let deadline = replace_tzinfo ts None;
               (now, e') = datetime_now e
           in (dt_gt now deadline, e')))"

section \<open>The listener\<close>

text \<open>
  The body of the loop of \<open>on_snapshot\<close>, for one change. An exception leaves the
  updates already issued in place and ends the call.
\<close>

definition on_change :: "change_type \<times> document \<Rightarrow> env \<Rightarrow> (error + unit) \<times> env" where
  "on_change change e =
     (case change of (type, doc) \<Rightarrow>
      if type = ADDED then
        (if status doc \<noteq> Some ''new'' then (Inr (), e)
         else
           let text = clean (case description doc of None \<Rightarrow> [] | Some d \<Rightarrow> d) in
           case predict_department text of
             Inl err \<Rightarrow> (Inl err, e)
           | Inr (department, dept_conf) \<Rightarrow>
           (case predict_priority text of
             Inl err \<Rightarrow> (Inl err, e)
           | Inr (priority, pr_conf) \<Rightarrow>
             (let (deadline, e1) = set_deadline priority e;
                  current_actions = (case actions doc of None \<Rightarrow> [] | Some a \<Rightarrow> a);
                  (stamp, e2) = datetime_now e1;
                  classification_action =
                    \<lparr>entry_action = ''AI classified as '' @ priority @ '' priority for ''
                                      @ department @ '' department'',
                     entry_timestamp = stamp,
                     entry_by = ''AI System''\<rparr>;
                  current_actions = current_actions @ [classification_action];
                  (updated, e3) = datetime_now e2
              in (Inr (),
                  db_update (doc_id doc)
                    [(''department'', VStr department),
                     (''departmentConfidence'', VInt dept_conf),
                     (''priority'', VStr priority),
                     (''priorityConfidence'', VInt pr_conf),
                     (''status'', VStr ''classified''),
                     (''deadline'', VTime deadline),
                     (''actions'', VActions current_actions),
                     (''lastUpdated'', VTime updated)] e3))))
      else if type = MODIFIED then
        (if status doc \<notin> set [Some ''resolved'', Some ''under_action''] then
           (case deadline doc of
              None \<Rightarrow> (Inr (), e)
            | Some dl \<Rightarrow>
                (let deadline_date = replace_tzinfo dl None;
                     (now, e1) = datetime_now e
                 in case dt_gt now deadline_date of
                      Inl err \<Rightarrow> (Inl err, e1)
                    | Inr overdue \<Rightarrow>
                        if overdue then (Inr (), db_update (doc_id doc) [(''overdue'', VBool True)] e1)
                        else (Inr (), e1)))
         else (Inr (), e))
      else (Inr (), e))"

fun on_snapshot :: "(change_type \<times> document) list \<Rightarrow> env \<Rightarrow> (error + unit) \<times> env" where
  "on_snapshot [] e = (Inr (), e)"
| "on_snapshot (change # changes) e =
     (case on_change change e of
        (Inl err, e') \<Rightarrow> (Inl err, e')
      | (Inr u, e') \<Rightarrow> on_snapshot changes e')"

section \<open>Properties of the normalizer\<close>

lemma isspace_space: "isspace CHR '' ''"
  by (simp add: isspace_def)

lemma sub_spaces_eq_Nil: "sub_spaces s = [] \<longleftrightarrow> s = []"
  by (cases s) auto

lemma sub_spaces_nonspace_run:
  "\<forall>x\<in>set w. \<not> isspace x \<Longrightarrow> sub_spaces (w @ r) = w @ sub_spaces r"
  by (induction w) auto

lemma sub_spaces_all_space:
  "s \<noteq> [] \<Longrightarrow> \<forall>x\<in>set s. isspace x \<Longrightarrow> sub_spaces s = '' ''"
  by (cases s) (auto simp: sub_spaces_eq_Nil)

lemma sub_spaces_keeps_all_space:
  "\<forall>x\<in>set r. isspace x \<Longrightarrow> \<forall>x\<in>set (sub_spaces r). isspace x"
  by (cases "r = []") (auto simp: sub_spaces_all_space isspace_space)

lemma split_words_eq_Nil: "split_words s = [] \<longleftrightarrow> (\<forall>x\<in>set s. isspace x)"
  by (induction s rule: split_words.induct) auto

lemma rstrip_append:
  "rstrip (a @ b) = (if \<forall>x\<in>set b. isspace x then rstrip a else a @ rstrip b)"
  by (simp add: rstrip_def dropWhile_append)

lemma rstrip_append_space: "\<forall>x\<in>set b. isspace x \<Longrightarrow> rstrip (a @ b) = rstrip a"
  by (simp add: rstrip_append)

lemma rstrip_append_nonspace: "\<not> (\<forall>x\<in>set b. isspace x) \<Longrightarrow> rstrip (a @ b) = a @ rstrip b"
  by (auto simp: rstrip_append)

lemma rstrip_nonspace_last: "w \<noteq> [] \<Longrightarrow> \<not> isspace (last w) \<Longrightarrow> rstrip w = w"
  by (cases w rule: rev_cases) (auto simp: rstrip_def)

lemma lstrip_space: "isspace c \<Longrightarrow> lstrip (c # cs) = lstrip cs"
  by (simp add: lstrip_def)

lemma lstrip_nonspace: "\<not> isspace c \<Longrightarrow> lstrip (c # cs) = c # cs"
  by (simp add: lstrip_def)

text \<open>Stripping on the left commutes with collapsing the runs.\<close>

lemma lstrip_sub_spaces: "lstrip (sub_spaces s) = sub_spaces (lstrip s)"
proof (cases s)
  case Nil
  then show ?thesis by (simp add: lstrip_def)
next
  case (Cons c cs)
  have head: "sub_spaces (lstrip t) = lstrip (sub_spaces (lstrip t))" for t
  proof (cases "lstrip t")
    case Nil
    then show ?thesis by (simp only: sub_spaces.simps lstrip_def dropWhile.simps)
  next
    case (Cons a list)
    then have "\<not> isspace a" using hd_dropWhile [of isspace t] by (auto simp: lstrip_def)
    with Cons show ?thesis by (simp add: lstrip_nonspace)
  qed
  show ?thesis
  proof (cases "isspace c")
    case True
    with Cons head [of cs] show ?thesis
      by (simp add: lstrip_space isspace_space) (simp add: lstrip_def)
  next
    case False
    with Cons show ?thesis by (simp add: lstrip_nonspace)
  qed
qed

text \<open>
  One word \<open>w\<close> followed by a rest \<open>r\<close> that is empty or starts with whitespace: what
  collapsing and stripping on the right make of it.
\<close>

lemma rstrip_sub_spaces_word:
  assumes w: "w \<noteq> []" "\<forall>x\<in>set w. \<not> isspace x"
    and r: "r = [] \<or> isspace (hd r)"
  shows "rstrip (sub_spaces (w @ r)) =
     (if \<forall>x\<in>set r. isspace x then w
      else w @ CHR '' '' # rstrip (sub_spaces (lstrip r)))"
proof -
  have wlast: "\<not> isspace (last w)" using w last_in_set [of w] by blast
  have split: "sub_spaces (w @ r) = w @ sub_spaces r"
    using w(2) by (rule sub_spaces_nonspace_run)
  show ?thesis
  proof (cases "\<forall>x\<in>set r. isspace x")
    case True
    then have "\<forall>x\<in>set (sub_spaces r). isspace x"
      by (rule sub_spaces_keeps_all_space)
    then have "rstrip (w @ sub_spaces r) = rstrip w"
      by (rule rstrip_append_space)
    also have "\<dots> = w"
      using w(1) wlast by (rule rstrip_nonspace_last)
    finally show ?thesis using True split by simp
  next
    case False
    then obtain d ds where dds: "r = d # ds" by (cases r) auto
    then have d: "isspace d" using r by simp
    have X: "sub_spaces r = CHR '' '' # sub_spaces (lstrip ds)"
      using dds d by (simp add: lstrip_def)
    have "\<not> (\<forall>x\<in>set ds. isspace x)" using False dds d by auto
    then have "lstrip ds \<noteq> []" by (simp add: lstrip_def)
    then obtain y ys where y: "lstrip ds = y # ys" by (cases "lstrip ds") auto
    have "\<not> isspace y" using y hd_dropWhile [of isspace ds] by (auto simp: lstrip_def)
    then have notall: "\<not> (\<forall>x\<in>set (sub_spaces (lstrip ds)). isspace x)"
      using y by auto
    have nr: "lstrip r = lstrip ds"
      using dds d by (simp add: lstrip_space)
    have "\<not> (\<forall>x\<in>set (sub_spaces r). isspace x)"
      using X notall by simp
    then have "rstrip (w @ sub_spaces r) = w @ rstrip (sub_spaces r)"
      by (rule rstrip_append_nonspace)
    also have "rstrip (sub_spaces r) = CHR '' '' # rstrip (sub_spaces (lstrip ds))"
      using rstrip_append_nonspace [OF notall, of "'' ''"] X by simp
    finally show ?thesis using False split nr by simp
  qed
qed

text \<open>
  Collapsing the runs of whitespace and stripping both ends is joining the words by
  single spaces: by induction along \<open>split_words\<close>, one word at a time.
\<close>

lemma strip_sub_spaces_eq_join: "strip (sub_spaces s) = join_words (split_words s)"
proof -
  have "rstrip (sub_spaces (lstrip s)) = join_words (split_words s)"
  proof (induction s rule: split_words.induct)
    case 1
    then show ?case by (simp add: lstrip_def rstrip_def)
  next
    case (2 c cs)
    show ?case
    proof (cases "isspace c")
      case True
      with 2 show ?thesis by (simp add: lstrip_space)
    next
      case False
      define w where "w = c # takeWhile (\<lambda>x. \<not> isspace x) cs"
      define r where "r = dropWhile (\<lambda>x. \<not> isspace x) cs"
      have s: "c # cs = w @ r" by (simp add: w_def r_def)
      have w: "w \<noteq> []" "\<forall>x\<in>set w. \<not> isspace x"
        using False by (auto simp: w_def dest: set_takeWhileD)
      have r: "r = [] \<or> isspace (hd r)"
        using hd_dropWhile [of "\<lambda>x. \<not> isspace x" cs] by (auto simp: r_def)
      have sp: "split_words (c # cs) = w # split_words r"
        using False by (simp add: w_def r_def)
      have IH: "rstrip (sub_spaces (lstrip r)) = join_words (split_words r)"
        using 2(2) False by (simp add: r_def)
      have "lstrip (c # cs) = w @ r"
        using lstrip_nonspace [OF False, of cs] by (simp only: s)
      then have "rstrip (sub_spaces (lstrip (c # cs))) = rstrip (sub_spaces (w @ r))"
        by (rule arg_cong)
      also have "\<dots> = (if \<forall>x\<in>set r. isspace x then w
          else w @ CHR '' '' # rstrip (sub_spaces (lstrip r)))"
        using w r by (rule rstrip_sub_spaces_word)
      also have "\<dots> = join_words (w # split_words r)"
      proof (cases "\<forall>x\<in>set r. isspace x")
        case True
        then have "split_words r = []" by (simp add: split_words_eq_Nil)
        with True show ?thesis by simp
      next
        case nz: False
        then have "split_words r \<noteq> []" by (simp add: split_words_eq_Nil)
        then obtain v vs where "split_words r = v # vs" by (cases "split_words r") auto
        with nz IH show ?thesis by simp
      qed
      finally show ?thesis using sp by simp
    qed
  qed
  then show ?thesis by (simp add: strip_def lstrip_sub_spaces)
qed

text \<open>What the text is made of after \<open>clean\<close>.\<close>

lemma az_or_space_iff: "az_or_space c \<longleftrightarrow> c \<in> set ''abcdefghijklmnopqrstuvwxyz ''"
proof
  assume "az_or_space c"
  then consider "c = CHR '' ''" | "97 \<le> (of_char c :: nat)" "(of_char c :: nat) \<le> 122"
    by (auto simp: az_or_space_def)
  then show "c \<in> set ''abcdefghijklmnopqrstuvwxyz ''"
  proof cases
    case 1
    then show ?thesis by simp
  next
    case 2
    then have "(of_char c :: nat) \<in> of_char ` set ''abcdefghijklmnopqrstuvwxyz ''"
      by simp arith
    then show ?thesis by (simp only: inj_image_mem_iff [OF inj_of_char])
  qed
next
  assume "c \<in> set ''abcdefghijklmnopqrstuvwxyz ''"
  then show "az_or_space c" by (auto simp: az_or_space_def)
qed

lemma az_or_space_char_of: "97 \<le> n \<Longrightarrow> n \<le> 122 \<Longrightarrow> az_or_space (char_of (n::nat))"
  by (simp add: az_or_space_def)

lemma char_of_32: "char_of (32::nat) = CHR '' ''"
  by (simp add: char_of_eq_iff)

lemma sub_not_az_space_chars: "c \<in> set (sub_not_az_space text) \<Longrightarrow> az_or_space c"
  by (auto simp: sub_not_az_space_def az_or_space_char_of char_of_32 split: if_splits)
    (simp add: az_or_space_def)+

lemma set_sub_spaces: "set (sub_spaces s) \<subseteq> insert CHR '' '' (set s)"
proof (induction s rule: sub_spaces.induct)
  case 1
  then show ?case by simp
next
  case (2 c cs)
  have "set (dropWhile isspace cs) \<subseteq> set cs" by (auto dest: set_dropWhileD)
  with 2 show ?case by (auto split: if_splits)
qed

lemma set_strip: "set (strip s) \<subseteq> set s"
  by (auto simp: strip_def lstrip_def rstrip_def dest!: set_dropWhileD)

lemma clean_az_or_space: "c \<in> set (clean text) \<Longrightarrow> az_or_space c"
proof -
  assume "c \<in> set (clean text)"
  then have "c \<in> insert CHR '' '' (set (sub_not_az_space (lower text)))"
    unfolding clean_def using set_strip set_sub_spaces by blast
  then show ?thesis
    using sub_not_az_space_chars [of c "lower text"] by (auto simp: az_or_space_def)
qed

lemma lower_cp_az: "az_or_space c \<Longrightarrow> lower_cp (of_char c) = [of_char c]"
  by (auto simp: lower_cp_def az_or_space_def)

lemma sub_lower_str:
  "\<forall>c\<in>set y. az_or_space c \<Longrightarrow> sub_not_az_space (lower (str y)) = y"
proof (induction y)
  case Nil
  then show ?case by (simp add: str_def lower_def sub_not_az_space_def)
next
  case (Cons c y)
  then have c: "az_or_space c" by simp
  have "sub_not_az_space (lower (str (c # y))) =
      sub_not_az_space [of_char c] @ sub_not_az_space (lower (str y))"
    using lower_cp_az [OF c] by (simp add: str_def lower_def sub_not_az_space_def)
  moreover have "sub_not_az_space [of_char c] = [c]"
    using c by (auto simp: sub_not_az_space_def az_or_space_def)
  ultimately show ?case using Cons by simp
qed

text \<open>The words of a text are not empty and hold no whitespace.\<close>

lemma split_words_word:
  "w \<in> set (split_words s) \<Longrightarrow> w \<noteq> [] \<and> (\<forall>x\<in>set w. \<not> isspace x)"
proof (induction s rule: split_words.induct)
  case 1
  then show ?case by simp
next
  case (2 c cs)
  show ?case
  proof (cases "isspace c")
    case True
    then have "w \<in> set (split_words cs)" using "2.prems" by simp
    with True show ?thesis by (rule "2.IH"(1))
  next
    case False
    define r where "r = dropWhile (\<lambda>x. \<not> isspace x) cs"
    have "split_words (c # cs) = (c # takeWhile (\<lambda>x. \<not> isspace x) cs) # split_words r"
      using False by (simp add: r_def)
    then consider "w = c # takeWhile (\<lambda>x. \<not> isspace x) cs" | "w \<in> set (split_words r)"
      using "2.prems" by auto
    then show ?thesis
    proof cases
      case 1
      then show ?thesis using False by (auto dest: set_takeWhileD)
    next
      case 2
      then have "w \<in> set (split_words (dropWhile (\<lambda>x. \<not> isspace x) cs))"
        by (simp only: r_def)
      with False show ?thesis by (rule "2.IH"(2))
    qed
  qed
qed

lemma split_words_word_append:
  assumes "w \<noteq> []" "\<forall>x\<in>set w. \<not> isspace x" "r = [] \<or> isspace (hd r)"
  shows "split_words (w @ r) = w # split_words r"
proof -
  obtain c w' where w: "w = c # w'" using assms(1) by (cases w) auto
  have tw: "takeWhile (\<lambda>x. \<not> isspace x) (w' @ r) = w'"
    using assms(2,3) w by (cases r) (auto simp: takeWhile_append2)
  have dw: "dropWhile (\<lambda>x. \<not> isspace x) (w' @ r) = r"
    using assms(2,3) w by (cases r) (auto simp: dropWhile_append2)
  show ?thesis using assms(2) w tw dw by simp
qed

lemma split_words_join_words:
  "\<forall>w\<in>set ws. w \<noteq> [] \<and> (\<forall>x\<in>set w. \<not> isspace x) \<Longrightarrow> split_words (join_words ws) = ws"
proof (induction ws rule: join_words.induct)
  case 1
  then show ?case by simp
next
  case (2 w)
  then show ?case using split_words_word_append [of w "[]"] by simp
next
  case (3 w v ws)
  have "split_words (w @ CHR '' '' # join_words (v # ws)) =
      w # split_words (CHR '' '' # join_words (v # ws))"
    using 3(2) by (intro split_words_word_append) (auto simp: isspace_space)
  then show ?case using 3 by (simp add: isspace_space)
qed

lemma py_in_sublist: "py_in k t \<longleftrightarrow> sublist k t"
  by (induction t) (auto simp: sublist_Cons_right)

lemma py_in_iff: "py_in k t \<longleftrightarrow> (\<exists>p s. t = p @ k @ s)"
  by (simp add: py_in_sublist sublist_def)

lemma dropWhile_isspace_head: "prefix [c] (dropWhile isspace s) \<Longrightarrow> \<not> isspace c"
proof -
  assume "prefix [c] (dropWhile isspace s)"
  then obtain ys where "dropWhile isspace s = c # ys" by (auto simp: prefix_def)
  then show ?thesis by (simp add: dropWhile_eq_Cons_conv)
qed

lemma rstrip_prefix: "prefix (rstrip s) s"
  using suffix_dropWhile [of isspace "rev s"] by (simp add: rstrip_def suffix_to_prefix)

lemma strip_no_leading: "\<not> prefix '' '' (strip s)"
proof
  assume "prefix '' '' (strip s)"
  then have "prefix '' '' (lstrip s)"
    unfolding strip_def using rstrip_prefix [of "lstrip s"] by (rule prefix_order.order_trans)
  then show False
    using dropWhile_isspace_head [of "CHR '' ''" s] by (simp add: lstrip_def isspace_space)
qed

lemma rstrip_no_trailing: "\<not> suffix '' '' (rstrip s)"
proof
  assume "suffix '' '' (rstrip s)"
  then have "prefix '' '' (dropWhile isspace (rev s))"
    by (simp add: rstrip_def suffix_to_prefix)
  then show False
    using dropWhile_isspace_head [of "CHR '' ''" "rev s"] by (simp add: isspace_space)
qed

lemma sub_spaces_lstrip_head: "\<not> prefix '' '' (sub_spaces (lstrip s))"
proof (cases "lstrip s")
  case Nil
  then show ?thesis by simp
next
  case (Cons y ys)
  then have "\<not> isspace y" by (simp add: lstrip_def dropWhile_eq_Cons_conv)
  then have "y \<noteq> CHR '' ''" using isspace_space by auto
  then show ?thesis using Cons \<open>\<not> isspace y\<close> by simp
qed

lemma sub_spaces_no_double: "\<not> sublist ''  '' (sub_spaces s)"
proof (induction s rule: sub_spaces.induct)
  case 1
  then show ?case by simp
next
  case (2 c cs)
  show ?case
  proof (cases "isspace c")
    case True
    then show ?thesis using 2(1) sub_spaces_lstrip_head [of cs]
      by (simp add: sublist_Cons_right lstrip_def)
  next
    case False
    then have "c \<noteq> CHR '' ''" using isspace_space by auto
    then show ?thesis using 2(2) False
      by (simp add: sublist_Cons_right)
  qed
qed

lemma strip_sublist: "sublist k (strip s) \<Longrightarrow> sublist k s"
proof -
  assume "sublist k (strip s)"
  moreover have "sublist (strip s) (lstrip s)"
    unfolding strip_def using rstrip_prefix by (rule prefix_imp_sublist)
  moreover have "sublist (lstrip s) s"
    unfolding lstrip_def using suffix_dropWhile by (rule suffix_imp_sublist)
  ultimately show ?thesis by (meson sublist_order.order_trans)
qed

text \<open>\<open>clean\<close> gives the words of the lowered, substituted text, joined by single spaces.\<close>

lemma clean_eq_join:
  "clean text = join_words (split_words (sub_not_az_space (lower text)))"
  by (simp add: clean_def strip_sub_spaces_eq_join)

text \<open>The equations that evaluate \<open>clean\<close> on a text that is written out.\<close>

lemmas clean_eval =
  clean_def lower_def str_def lower_cp_def sub_not_az_space_def char_of_eq_iff
  strip_def lstrip_def rstrip_def isspace_def

text \<open>
  C7. For every text, \<open>clean\<close> returns the words of the lowercased text in which every
  code point outside \<open>a\<close>..\<open>z\<close> and the space has become a space, joined by single
  spaces: the result is made of \<open>a\<close>..\<open>z\<close> and spaces only, has no space at either
  end and no two spaces in a row. The function is total; the empty text gives the
  empty text, and \<open>"Water LEAK!!"\<close> gives \<open>"water leak"\<close>.
\<close>

theorem clean_normalizes:
  "clean text = join_words (split_words (sub_not_az_space (lower text)))
   \<and> set (clean text) \<subseteq> set ''abcdefghijklmnopqrstuvwxyz ''
   \<and> \<not> prefix '' '' (clean text) \<and> \<not> suffix '' '' (clean text)
   \<and> \<not> py_in ''  '' (clean text)
   \<and> clean [] = []
   \<and> clean (str ''Water LEAK!!'') = ''water leak''"
proof (intro conjI)
  show "clean text = join_words (split_words (sub_not_az_space (lower text)))"
    by (rule clean_eq_join)
  show "set (clean text) \<subseteq> set ''abcdefghijklmnopqrstuvwxyz ''"
    using clean_az_or_space [of _ "text"] by (auto simp only: az_or_space_iff)
  show "\<not> prefix '' '' (clean text)"
    unfolding clean_def by (rule strip_no_leading)
  show "\<not> suffix '' '' (clean text)"
    unfolding clean_def strip_def by (rule rstrip_no_trailing)
  show "\<not> py_in ''  '' (clean text)"
    unfolding clean_def py_in_sublist using strip_sublist sub_spaces_no_double by blast
  show "clean [] = []"
    by (simp add: clean_def lower_def sub_not_az_space_def strip_def lstrip_def rstrip_def)
  show "clean (str ''Water LEAK!!'') = ''water leak''"
    by (simp add: clean_eval)
qed

theorem clean_normalizes_witness:
  "clean (str ''Pot-hole  on MG Road!'') = ''pot hole on mg road''
   \<and> join_words (split_words (sub_not_az_space (lower (str ''Pot-hole  on MG Road!''))))
       = ''pot hole on mg road''
   \<and> set ''pot hole on mg road'' \<subseteq> set ''abcdefghijklmnopqrstuvwxyz ''"
proof -
  have c: "clean (str ''Pot-hole  on MG Road!'') = ''pot hole on mg road''"
    by (simp add: clean_eval)
  note n = clean_normalizes [of "str ''Pot-hole  on MG Road!''"]
  have j: "join_words (split_words (sub_not_az_space (lower (str ''Pot-hole  on MG Road!''))))
      = ''pot hole on mg road''"
    using n [THEN conjunct1] by (simp only: c)
  have "set (clean (str ''Pot-hole  on MG Road!'')) \<subseteq> set ''abcdefghijklmnopqrstuvwxyz ''"
    by (rule n [THEN conjunct2, THEN conjunct1])
  then have "set ''pot hole on mg road'' \<subseteq> set ''abcdefghijklmnopqrstuvwxyz ''"
    by (simp only: c)
  with c j show ?thesis by (intro conjI)
qed

text \<open>
  C8. \<open>clean\<close> is idempotent: cleaning the text that \<open>clean\<close> returned gives that
  text again.
\<close>

theorem clean_idempotent: "clean (str (clean x)) = clean x"
proof -
  let ?ws = "split_words (sub_not_az_space (lower x))"
  have "\<forall>c\<in>set (clean x). az_or_space c" by (simp add: clean_az_or_space)
  then have "sub_not_az_space (lower (str (clean x))) = clean x" by (rule sub_lower_str)
  then have "clean (str (clean x)) = join_words (split_words (clean x))"
    by (simp add: clean_eq_join)
  also have "split_words (clean x) = ?ws"
    unfolding clean_eq_join [of x] using split_words_word by (intro split_words_join_words) blast
  finally show ?thesis by (simp add: clean_eq_join)
qed

theorem clean_idempotent_witness:
  "clean (str (clean (str ''Water LEAK!!''))) = ''water leak''"
proof -
  have c: "clean (str ''Water LEAK!!'') = ''water leak''" by (simp add: clean_eval)
  show ?thesis using clean_idempotent [of "str ''Water LEAK!!''"] by (simp only: c)
qed

section \<open>Properties of the classifier\<close>

lemma keyword_score_length:
  "keyword_score text keywords = int (length (filter (\<lambda>k. py_in k text) keywords))"
  unfolding keyword_score_def by (induction "keywords") auto

lemma keyword_score_card:
  "keyword_score text keywords =
     int (card {i. i < length keywords \<and> (\<exists>p s. text = p @ keywords ! i @ s)})"
  by (simp add: keyword_score_length length_filter_conv_card py_in_iff)

text \<open>
  The loop of \<open>max\<close>, started inside a list: \<open>pre\<close> is what it has seen, its best so
  far is at index \<open>i0\<close>, and \<open>rest\<close> is what is left.
\<close>

lemma max_loop_first_max:
  assumes "i0 < length pre" "pre ! i0 = (m, v)"
    and "\<forall>j<length pre. snd (pre ! j) \<le> v"
    and "\<forall>j<i0. snd (pre ! j) < v"
  shows "\<exists>i<length (pre @ rest). max_loop m v rest = fst ((pre @ rest) ! i)
           \<and> (\<forall>j<length (pre @ rest). snd ((pre @ rest) ! j) \<le> snd ((pre @ rest) ! i))
           \<and> (\<forall>j<i. snd ((pre @ rest) ! j) < snd ((pre @ rest) ! i))"
  using assms
proof (induction rest arbitrary: pre i0 m v)
  case Nil
  then show ?case by (intro exI [of _ i0]) simp
next
  case (Cons x rest)
  obtain item val where x: "x = (item, val)" by (cases x)
  show ?case
  proof (cases "val > v")
    case True
    have "\<exists>i<length ((pre @ [x]) @ rest). max_loop item val rest = fst (((pre @ [x]) @ rest) ! i)
           \<and> (\<forall>j<length ((pre @ [x]) @ rest). snd (((pre @ [x]) @ rest) ! j) \<le> snd (((pre @ [x]) @ rest) ! i))
           \<and> (\<forall>j<i. snd (((pre @ [x]) @ rest) ! j) < snd (((pre @ [x]) @ rest) ! i))"
    proof (rule Cons.IH [of "length pre"])
      show "length pre < length (pre @ [x])" by simp
      show "(pre @ [x]) ! length pre = (item, val)" by (simp add: x)
      show "\<forall>j<length (pre @ [x]). snd ((pre @ [x]) ! j) \<le> val"
        using Cons.prems(3) True x by (auto simp: nth_append less_Suc_eq)
      show "\<forall>j<length pre. snd ((pre @ [x]) ! j) < val"
        using Cons.prems(3) True by (auto simp: nth_append)
    qed
    then show ?thesis using True x by simp
  next
    case False
    have "\<exists>i<length ((pre @ [x]) @ rest). max_loop m v rest = fst (((pre @ [x]) @ rest) ! i)
           \<and> (\<forall>j<length ((pre @ [x]) @ rest). snd (((pre @ [x]) @ rest) ! j) \<le> snd (((pre @ [x]) @ rest) ! i))
           \<and> (\<forall>j<i. snd (((pre @ [x]) @ rest) ! j) < snd (((pre @ [x]) @ rest) ! i))"
    proof (rule Cons.IH [of i0])
      show "i0 < length (pre @ [x])" using Cons.prems(1) by simp
      show "(pre @ [x]) ! i0 = (m, v)" using Cons.prems(1,2) by (simp add: nth_append)
      show "\<forall>j<length (pre @ [x]). snd ((pre @ [x]) ! j) \<le> v"
        using Cons.prems(3) False x by (auto simp: nth_append less_Suc_eq)
      show "\<forall>j<i0. snd ((pre @ [x]) ! j) < v"
        using Cons.prems(1,4) by (auto simp: nth_append)
    qed
    then show ?thesis using False x by simp
  qed
qed

lemma py_max_first_max:
  assumes "scores \<noteq> []"
  shows "\<exists>i<length scores. py_max scores = Inr (fst (scores ! i))
           \<and> (\<forall>j<length scores. snd (scores ! j) \<le> snd (scores ! i))
           \<and> (\<forall>j<i. snd (scores ! j) < snd (scores ! i))"
proof -
  obtain item val rest where s: "scores = (item, val) # rest"
    using assms by (cases scores) auto
  have "\<exists>i<length ([(item, val)] @ rest). max_loop item val rest = fst (([(item, val)] @ rest) ! i)
           \<and> (\<forall>j<length ([(item, val)] @ rest). snd (([(item, val)] @ rest) ! j) \<le> snd (([(item, val)] @ rest) ! i))
           \<and> (\<forall>j<i. snd (([(item, val)] @ rest) ! j) < snd (([(item, val)] @ rest) ! i))"
    by (rule max_loop_first_max [of 0]) auto
  then show ?thesis by (simp add: s py_max_def)
qed

lemma scores_of_nth:
  "i < length table \<Longrightarrow> scores_of table text ! i = (fst (table ! i), keyword_score text (snd (table ! i)))"
  by (simp add: scores_of_def case_prod_beta)

lemma map_of_scores_of:
  assumes "distinct (map fst table)" "i < length table"
  shows "map_of (scores_of table text) (fst (table ! i)) = Some (keyword_score text (snd (table ! i)))"
proof -
  have d: "distinct (map fst (scores_of table text))"
    using assms(1) by (simp add: scores_of_def case_prod_beta comp_def)
  have "scores_of table text ! i \<in> set (scores_of table text)"
    using assms(2) by (simp add: scores_of_def)
  then have "(fst (table ! i), keyword_score text (snd (table ! i))) \<in> set (scores_of table text)"
    using assms(2) by (simp add: scores_of_nth)
  with d show ?thesis by (rule map_of_is_SomeI)
qed

lemma best_of_table:
  assumes "table \<noteq> []"
  shows "\<exists>i. first_max table text i \<and> py_max (scores_of table text) = Inr (fst (table ! i))"
proof -
  have "scores_of table text \<noteq> []" using assms by (simp add: scores_of_def)
  from py_max_first_max [OF this] obtain i where i: "i < length (scores_of table text)"
    "py_max (scores_of table text) = Inr (fst (scores_of table text ! i))"
    "\<forall>j<length (scores_of table text). snd (scores_of table text ! j) \<le> snd (scores_of table text ! i)"
    "\<forall>j<i. snd (scores_of table text ! j) < snd (scores_of table text ! i)"
    by blast
  have len: "length (scores_of table text) = length table" by (simp add: scores_of_def)
  have "first_max table text i"
    unfolding first_max_def using i(1,3,4) by (simp add: len scores_of_nth)
  moreover have "py_max (scores_of table text) = Inr (fst (table ! i))"
    using i(1,2) by (simp add: len scores_of_nth)
  ultimately show ?thesis by blast
qed

lemma KEYWORDS_keys: "KEYWORDS \<noteq> []" "distinct (map fst KEYWORDS)" "length KEYWORDS = 6"
  by (simp_all add: KEYWORDS_def)

lemma PRIORITY_KEYWORDS_keys:
  "PRIORITY_KEYWORDS \<noteq> []" "distinct (map fst PRIORITY_KEYWORDS)" "length PRIORITY_KEYWORDS = 3"
  by (simp_all add: PRIORITY_KEYWORDS_def)

lemma predict_department_first_max:
  "\<exists>i. first_max KEYWORDS text i
     \<and> predict_department text = Inr (fst (KEYWORDS ! i), keyword_score text (snd (KEYWORDS ! i)) * 20)"
proof -
  obtain i where i: "first_max KEYWORDS text i"
      "py_max (scores_of KEYWORDS text) = Inr (fst (KEYWORDS ! i))"
    using best_of_table [OF KEYWORDS_keys(1)] by blast
  have "map_of (scores_of KEYWORDS text) (fst (KEYWORDS ! i))
      = Some (keyword_score text (snd (KEYWORDS ! i)))"
    using KEYWORDS_keys(2) i(1) by (intro map_of_scores_of) (simp_all add: first_max_def)
  then have "predict_department text
      = Inr (fst (KEYWORDS ! i), keyword_score text (snd (KEYWORDS ! i)) * 20)"
    using i(2) by (simp add: predict_department_def)
  with i(1) show ?thesis by blast
qed

lemma predict_priority_first_max:
  "\<exists>i. first_max PRIORITY_KEYWORDS text i
     \<and> predict_priority text
         = Inr (fst (PRIORITY_KEYWORDS ! i), keyword_score text (snd (PRIORITY_KEYWORDS ! i)) * 25)"
proof -
  obtain i where i: "first_max PRIORITY_KEYWORDS text i"
      "py_max (scores_of PRIORITY_KEYWORDS text) = Inr (fst (PRIORITY_KEYWORDS ! i))"
    using best_of_table [OF PRIORITY_KEYWORDS_keys(1)] by blast
  have "map_of (scores_of PRIORITY_KEYWORDS text) (fst (PRIORITY_KEYWORDS ! i))
      = Some (keyword_score text (snd (PRIORITY_KEYWORDS ! i)))"
    using PRIORITY_KEYWORDS_keys(2) i(1) by (intro map_of_scores_of) (simp_all add: first_max_def)
  then have "predict_priority text
      = Inr (fst (PRIORITY_KEYWORDS ! i), keyword_score text (snd (PRIORITY_KEYWORDS ! i)) * 25)"
    using i(2) by (simp add: predict_priority_def)
  with i(1) show ?thesis by blast
qed

text \<open>
  C2. The score of a category is the number of entries of its keyword list that occur
  in the text as a substring, each entry counted once however often it occurs. For
  every table that is not empty, the best category is the first one, in the order of
  the table, whose score is the greatest. \<open>predict_department\<close> returns it with its
  score times 20 and \<open>predict_priority\<close> with its score times 25, and nothing caps
  the confidence: one text gives 160, another 125.
\<close>

theorem classifier_score_best_confidence:
  "keyword_score text keywords
     = int (card {i. i < length keywords \<and> (\<exists>p s. text = p @ keywords ! i @ s)})
   \<and> (table \<noteq> [] \<longrightarrow>
        (\<exists>i. first_max table text i \<and> py_max (scores_of table text) = Inr (fst (table ! i))))
   \<and> (\<exists>i. first_max KEYWORDS text i
          \<and> predict_department text
              = Inr (fst (KEYWORDS ! i), keyword_score text (snd (KEYWORDS ! i)) * 20))
   \<and> (\<exists>i. first_max PRIORITY_KEYWORDS text i
          \<and> predict_priority text
              = Inr (fst (PRIORITY_KEYWORDS ! i),
                     keyword_score text (snd (PRIORITY_KEYWORDS ! i)) * 25))
   \<and> predict_department ''no water pipeline pressure tank leakage'' = Inr (''Water'', 160)
   \<and> predict_priority ''fire collapse fallen burst danger'' = Inr (''High'', 125)"
proof (intro conjI impI)
  show "keyword_score text keywords
     = int (card {i. i < length keywords \<and> (\<exists>p s. text = p @ keywords ! i @ s)})"
    by (rule keyword_score_card)
  show "\<exists>i. first_max table text i \<and> py_max (scores_of table text) = Inr (fst (table ! i))"
    if "table \<noteq> []" using that by (rule best_of_table)
  show "\<exists>i. first_max KEYWORDS text i
          \<and> predict_department text
              = Inr (fst (KEYWORDS ! i), keyword_score text (snd (KEYWORDS ! i)) * 20)"
    by (rule predict_department_first_max)
  show "\<exists>i. first_max PRIORITY_KEYWORDS text i
          \<and> predict_priority text
              = Inr (fst (PRIORITY_KEYWORDS ! i),
                     keyword_score text (snd (PRIORITY_KEYWORDS ! i)) * 25)"
    by (rule predict_priority_first_max)
  show "predict_department ''no water pipeline pressure tank leakage'' = Inr (''Water'', 160)"
    by code_simp
  show "predict_priority ''fire collapse fallen burst danger'' = Inr (''High'', 125)"
    by code_simp
qed

theorem classifier_score_best_confidence_witness:
  "KEYWORDS \<noteq> []
   \<and> first_max KEYWORDS ''the water pipe is leaking near the tap'' 0
   \<and> py_max (scores_of KEYWORDS ''the water pipe is leaking near the tap'') = Inr ''Water''
   \<and> keyword_score ''the water pipe is leaking near the tap'' [''water'', ''pipe'', ''gas''] = 2
   \<and> card {i. i < length [''water'', ''pipe'', ''gas'']
                 \<and> (\<exists>p s. ''the water pipe is leaking near the tap''
                            = p @ [''water'', ''pipe'', ''gas''] ! i @ s)} = 2"
proof -
  let ?T = "''the water pipe is leaking near the tap''"
  note c = classifier_score_best_confidence [of ?T "[''water'', ''pipe'', ''gas'']" KEYWORDS]
  have ne: "KEYWORDS \<noteq> []" by (rule KEYWORDS_keys(1))
  have best: "py_max (scores_of KEYWORDS ?T) = Inr ''Water''" by code_simp
  have ks: "keyword_score ?T [''water'', ''pipe'', ''gas''] = 2" by code_simp
  from c ne obtain i where i: "first_max KEYWORDS ?T i"
      "py_max (scores_of KEYWORDS ?T) = Inr (fst (KEYWORDS ! i))"
    by blast
  have "i < 6" using i(1) by (simp add: first_max_def KEYWORDS_keys(3))
  then consider "i = 0" | "i = 1" | "i = 2" | "i = 3" | "i = 4" | "i = 5" by arith
  then have "i = 0"
    using i(2) unfolding best by cases (simp_all add: KEYWORDS_def)
  then have fm: "first_max KEYWORDS ?T 0" using i(1) by simp
  let ?S = "{i. i < length [''water'', ''pipe'', ''gas'']
                 \<and> (\<exists>p s. ?T = p @ [''water'', ''pipe'', ''gas''] ! i @ s)}"
  have "int (card ?S) = 2"
    using c [THEN conjunct1, symmetric] by (simp only: ks)
  then have "card ?S = 2" by linarith
  with ne fm best ks show ?thesis by (intro conjI)
qed

section \<open>Properties of the deadline policy and the overdue check\<close>

text \<open>
  C3. With \<open>T\<close> the reading of the clock that \<open>set_deadline\<close> takes as now, the deadline
  is \<open>T\<close> plus 24 hours for High, \<open>T\<close> plus 72 hours for Medium, and \<open>T\<close> plus 7 days for
  Low and for every other priority value (times in microseconds).
\<close>

theorem set_deadline_policy:
  "fst (datetime_now e) = \<lparr>wall = clock e (reads e), tzinfo = None\<rparr>
   \<and> fst (set_deadline ''High'' e)
       = \<lparr>wall = clock e (reads e) + 24 * 3600 * 1000000, tzinfo = None\<rparr>
   \<and> fst (set_deadline ''Medium'' e)
       = \<lparr>wall = clock e (reads e) + 72 * 3600 * 1000000, tzinfo = None\<rparr>
   \<and> fst (set_deadline ''Low'' e)
       = \<lparr>wall = clock e (reads e) + 7 * 24 * 3600 * 1000000, tzinfo = None\<rparr>
   \<and> (priority \<noteq> ''High'' \<and> priority \<noteq> ''Medium'' \<longrightarrow>
        fst (set_deadline priority e)
          = \<lparr>wall = clock e (reads e) + 7 * 24 * 3600 * 1000000, tzinfo = None\<rparr>)"
  by (simp add: set_deadline_def datetime_now_def dt_add_def timedelta_def)

theorem set_deadline_policy_witness:
  "''Urgent'' \<noteq> ''High'' \<and> ''Urgent'' \<noteq> ''Medium''
   \<and> fst (set_deadline ''Urgent'' \<lparr>clock = (\<lambda>n. 1000 + int n), reads = 0, issued = []\<rparr>)
       = \<lparr>wall = 604800001000, tzinfo = None\<rparr>
   \<and> fst (set_deadline ''High'' \<lparr>clock = (\<lambda>n. 1000 + int n), reads = 0, issued = []\<rparr>)
       = \<lparr>wall = 86400001000, tzinfo = None\<rparr>"
  using set_deadline_policy [of "\<lparr>clock = (\<lambda>n. 1000 + int n), reads = 0, issued = []\<rparr>" "''Urgent''"]
  by simp

text \<open>
  C4. \<open>check_overdue\<close> returns false when there is no deadline. Otherwise it drops the
  \<open>tzinfo\<close> of the deadline, so the comparison never raises, and returns true exactly
  when the reading of the clock is strictly greater than the deadline's wall-clock
  time; a deadline one hour before now is overdue, one hour after now (or equal to
  now) is not, whatever its \<open>tzinfo\<close> was.
\<close>

theorem check_overdue_result:
  "fst (check_overdue None e) = Inr False
   \<and> fst (check_overdue (Some d) e) = Inr (clock e (reads e) > wall d)
   \<and> fst (check_overdue (Some \<lparr>wall = clock e (reads e) - 3600 * 1000000, tzinfo = tz\<rparr>) e)
       = Inr True
   \<and> fst (check_overdue (Some \<lparr>wall = clock e (reads e) + 3600 * 1000000, tzinfo = tz\<rparr>) e)
       = Inr False
   \<and> fst (check_overdue (Some \<lparr>wall = clock e (reads e), tzinfo = tz\<rparr>) e) = Inr False"
  by (simp add: check_overdue_def datetime_now_def replace_tzinfo_def dt_gt_def)

theorem check_overdue_result_witness:
  "fst (check_overdue (Some \<lparr>wall = 5, tzinfo = Some 19800000000\<rparr>)
         \<lparr>clock = (\<lambda>n. 1000 + int n), reads = 0, issued = []\<rparr>) = Inr True
   \<and> fst (check_overdue (Some \<lparr>wall = 5000, tzinfo = None\<rparr>)
         \<lparr>clock = (\<lambda>n. 1000 + int n), reads = 0, issued = []\<rparr>) = Inr False"
  using check_overdue_result [of "\<lparr>clock = (\<lambda>n. 1000 + int n), reads = 0, issued = []\<rparr>"
      "\<lparr>wall = 5, tzinfo = Some 19800000000\<rparr>"]
    check_overdue_result [of "\<lparr>clock = (\<lambda>n. 1000 + int n), reads = 0, issued = []\<rparr>"
      "\<lparr>wall = 5000, tzinfo = None\<rparr>"]
  by simp

section \<open>Properties of the listener\<close>

lemma on_snapshot_single: "on_snapshot [change] e = on_change change e"
proof -
  obtain r e' where r: "on_change change e = (r, e')" by (cases "on_change change e")
  show ?thesis by (cases r) (simp_all add: r)
qed

lemma on_change_added_not_new:
  "status doc \<noteq> Some ''new'' \<Longrightarrow> on_change (ADDED, doc) e = (Inr (), e)"
  by (simp add: on_change_def)

text \<open>
  The ADDED branch on a new complaint, given what the two predict functions return
  for its cleaned description: three readings of the clock and one update.
\<close>

lemma on_change_added_new:
  assumes "status doc = Some ''new''"
    and "predict_department (clean (case description doc of None \<Rightarrow> [] | Some d \<Rightarrow> d))
           = Inr (department, dept_conf)"
    and "predict_priority (clean (case description doc of None \<Rightarrow> [] | Some d \<Rightarrow> d))
           = Inr (priority, pr_conf)"
  shows "on_change (ADDED, doc) e =
    (Inr (),
     e\<lparr>reads := reads e + 3,
       issued := issued e @
         [(doc_id doc,
           [(''department'', VStr department),
            (''departmentConfidence'', VInt dept_conf),
            (''priority'', VStr priority),
            (''priorityConfidence'', VInt pr_conf),
            (''status'', VStr ''classified''),
            (''deadline'', VTime (fst (set_deadline priority e))),
            (''actions'', VActions
               ((case actions doc of None \<Rightarrow> [] | Some a \<Rightarrow> a) @
                [\<lparr>entry_action = ''AI classified as '' @ priority @ '' priority for ''
                                   @ department @ '' department'',
                  entry_timestamp = \<lparr>wall = clock e (reads e + 1), tzinfo = None\<rparr>,
                  entry_by = ''AI System''\<rparr>])),
            (''lastUpdated'', VTime \<lparr>wall = clock e (reads e + 2), tzinfo = None\<rparr>)])]\<rparr>)"
  using assms
  by (simp add: on_change_def set_deadline_def datetime_now_def db_update_def Let_def
      split_def numeral_3_eq_3 numeral_2_eq_2)

lemma on_change_modified:
  "on_change (MODIFIED, doc) e =
     (if status doc \<notin> {Some ''resolved'', Some ''under_action''} \<and> deadline doc \<noteq> None
      then (Inr (),
            if wall (the (deadline doc)) < clock e (reads e)
            then e\<lparr>reads := reads e + 1,
                   issued := issued e @ [(doc_id doc, [(''overdue'', VBool True)])]\<rparr>
            else e\<lparr>reads := reads e + 1\<rparr>)
      else (Inr (), e))"
  by (cases "deadline doc")
    (auto simp: on_change_def datetime_now_def db_update_def replace_tzinfo_def dt_gt_def Let_def)

lemma on_change_removed: "on_change (REMOVED, doc) e = (Inr (), e)"
  by (simp add: on_change_def)

lemma clean_manhole:
  "clean (str ''open manhole near the bus stop, very dangerous'')
     = ''open manhole near the bus stop very dangerous''"
  by (simp add: clean_eval)

lemma scores_manhole:
  "scores_of KEYWORDS ''open manhole near the bus stop very dangerous''
     = [(''Water'', 2), (''Electricity'', 0), (''Municipality'', 0), (''PWD'', 0),
        (''Police'', 0), (''Traffic'', 1)]"
  "scores_of PRIORITY_KEYWORDS ''open manhole near the bus stop very dangerous''
     = [(''High'', 2), (''Medium'', 0), (''Low'', 0)]"
  by code_simp+

lemma predict_manhole:
  "predict_department ''open manhole near the bus stop very dangerous'' = Inr (''Water'', 40)"
  "predict_priority ''open manhole near the bus stop very dangerous'' = Inr (''High'', 50)"
  by (simp_all add: predict_department_def predict_priority_def scores_manhole py_max_def)

lemma clean_empty: "clean [] = []"
  by (simp add: clean_eval)

lemma scores_empty:
  "scores_of KEYWORDS [] = [(''Water'', 0), (''Electricity'', 0), (''Municipality'', 0),
      (''PWD'', 0), (''Police'', 0), (''Traffic'', 0)]"
  "scores_of PRIORITY_KEYWORDS [] = [(''High'', 0), (''Medium'', 0), (''Low'', 0)]"
  by code_simp+

lemma predict_empty:
  "predict_department [] = Inr (''Water'', 0)"
  "predict_priority [] = Inr (''High'', 0)"
  by (simp_all add: predict_department_def predict_priority_def scores_empty py_max_def)

text \<open>
  C1. An ADDED event for a complaint with status \<open>new\<close> and the description
  \<open>"open manhole near the bus stop, very dangerous"\<close> issues one update. It sets the
  department to Water (which scores 2, for \<open>manhole\<close> and \<open>open manhole\<close>, against 1
  for Traffic), the priority to High and the status to \<open>classified\<close>, and its actions
  are the complaint's actions with exactly one entry appended.
\<close>

theorem added_manhole_classified:
  assumes "status doc = Some ''new''"
    and "description doc = Some (str ''open manhole near the bus stop, very dangerous'')"
  shows "on_snapshot [(ADDED, doc)] e =
    (Inr (),
     e\<lparr>reads := reads e + 3,
       issued := issued e @
         [(doc_id doc,
           [(''department'', VStr ''Water''),
            (''departmentConfidence'', VInt 40),
            (''priority'', VStr ''High''),
            (''priorityConfidence'', VInt 50),
            (''status'', VStr ''classified''),
            (''deadline'', VTime \<lparr>wall = clock e (reads e) + 24 * 3600 * 1000000, tzinfo = None\<rparr>),
            (''actions'', VActions
               ((case actions doc of None \<Rightarrow> [] | Some a \<Rightarrow> a) @
                [\<lparr>entry_action = ''AI classified as High priority for Water department'',
                  entry_timestamp = \<lparr>wall = clock e (reads e + 1), tzinfo = None\<rparr>,
                  entry_by = ''AI System''\<rparr>])),
            (''lastUpdated'', VTime \<lparr>wall = clock e (reads e + 2), tzinfo = None\<rparr>)])]\<rparr>)"
proof -
  have d: "predict_department (clean (case description doc of None \<Rightarrow> [] | Some d \<Rightarrow> d))
      = Inr (''Water'', 40)"
    by (simp add: assms(2) clean_manhole predict_manhole)
  have p: "predict_priority (clean (case description doc of None \<Rightarrow> [] | Some d \<Rightarrow> d))
      = Inr (''High'', 50)"
    by (simp add: assms(2) clean_manhole predict_manhole)
  have dl: "fst (set_deadline ''High'' e)
      = \<lparr>wall = clock e (reads e) + 24 * 3600 * 1000000, tzinfo = None\<rparr>"
    by (simp add: set_deadline_def datetime_now_def dt_add_def timedelta_def)
  show ?thesis
    unfolding on_snapshot_single on_change_added_new [OF assms(1) d p] dl by simp
qed

theorem added_manhole_classified_witness:
  "on_snapshot
     [(ADDED, \<lparr>doc_id = ''c1'', status = Some ''new'',
                description = Some (str ''open manhole near the bus stop, very dangerous''),
                actions = None, deadline = None\<rparr>)]
     \<lparr>clock = (\<lambda>n. 1000 + int n), reads = 0, issued = []\<rparr> =
   (Inr (),
    \<lparr>clock = (\<lambda>n. 1000 + int n), reads = 3,
     issued =
       [(''c1'',
         [(''department'', VStr ''Water''),
          (''departmentConfidence'', VInt 40),
          (''priority'', VStr ''High''),
          (''priorityConfidence'', VInt 50),
          (''status'', VStr ''classified''),
          (''deadline'', VTime \<lparr>wall = 86400001000, tzinfo = None\<rparr>),
          (''actions'', VActions
             [\<lparr>entry_action = ''AI classified as High priority for Water department'',
               entry_timestamp = \<lparr>wall = 1001, tzinfo = None\<rparr>,
               entry_by = ''AI System''\<rparr>]),
          (''lastUpdated'', VTime \<lparr>wall = 1002, tzinfo = None\<rparr>)])]\<rparr>)"
  using added_manhole_classified
    [of "\<lparr>doc_id = ''c1'', status = Some ''new'',
          description = Some (str ''open manhole near the bus stop, very dangerous''),
          actions = None, deadline = None\<rparr>"
        "\<lparr>clock = (\<lambda>n. 1000 + int n), reads = 0, issued = []\<rparr>"]
  by simp

text \<open>
  No change makes the listener raise, and what a change adds to the updates issued is
  at most one update, which never sets \<open>overdue\<close> to false.
\<close>

lemma on_change_issued:
  "\<exists>us. on_change change e = (Inr (), snd (on_change change e))
        \<and> issued (snd (on_change change e)) = issued e @ us
        \<and> length us \<le> 1
        \<and> (\<forall>u\<in>set us. map_of (snd u) ''overdue'' \<noteq> Some (VBool False))"
proof -
  obtain type doc where c: "change = (type, doc)" by (cases change)
  show ?thesis
  proof (cases type)
    case ADDED
    show ?thesis
    proof (cases "status doc = Some ''new''")
      case True
      let ?text = "clean (case description doc of None \<Rightarrow> [] | Some d \<Rightarrow> d)"
      obtain department dept_conf where d: "predict_department ?text = Inr (department, dept_conf)"
        using predict_department_first_max [of ?text] by blast
      obtain priority pr_conf where p: "predict_priority ?text = Inr (priority, pr_conf)"
        using predict_priority_first_max [of ?text] by blast
      show ?thesis
        unfolding c ADDED on_change_added_new [OF True d p] by simp
    next
      case False
      then show ?thesis by (simp add: c ADDED on_change_added_not_new)
    qed
  next
    case MODIFIED
    show ?thesis by (simp add: c MODIFIED on_change_modified)
  next
    case REMOVED
    show ?thesis by (simp add: c REMOVED on_change_removed)
  qed
qed

lemma on_snapshot_issued:
  "\<exists>us. on_snapshot changes e = (Inr (), snd (on_snapshot changes e))
        \<and> issued (snd (on_snapshot changes e)) = issued e @ us
        \<and> (\<forall>u\<in>set us. map_of (snd u) ''overdue'' \<noteq> Some (VBool False))"
proof (induction changes arbitrary: e)
  case Nil
  then show ?case by simp
next
  case (Cons change changes)
  obtain us where us: "on_change change e = (Inr (), snd (on_change change e))"
      "issued (snd (on_change change e)) = issued e @ us"
      "\<forall>u\<in>set us. map_of (snd u) ''overdue'' \<noteq> Some (VBool False)"
    using on_change_issued [of change e] by blast
  define e' where "e' = snd (on_change change e)"
  obtain vs where vs: "on_snapshot changes e' = (Inr (), snd (on_snapshot changes e'))"
      "issued (snd (on_snapshot changes e')) = issued e' @ vs"
      "\<forall>u\<in>set vs. map_of (snd u) ''overdue'' \<noteq> Some (VBool False)"
    using Cons.IH [of e'] by blast
  have "on_change change e = (Inr (), e')" using us(1) by (simp only: e'_def)
  then have step: "on_snapshot (change # changes) e = on_snapshot changes e'"
    by simp
  have "issued (snd (on_snapshot (change # changes) e)) = issued e @ (us @ vs)"
    unfolding step using us(2) vs(2) by (simp add: e'_def)
  moreover have "\<forall>u\<in>set (us @ vs). map_of (snd u) ''overdue'' \<noteq> Some (VBool False)"
    using us(3) vs(3) by auto
  moreover have "on_snapshot (change # changes) e = (Inr (), snd (on_snapshot (change # changes) e))"
    unfolding step by (rule vs(1))
  ultimately show ?case by blast
qed

text \<open>
  C5. An ADDED event for a complaint whose status is not \<open>new\<close>, for one already
  \<open>classified\<close>, changes nothing: no update is issued and the clock is not read; so
  does a whole batch of such events. The update that classifies a new complaint sets
  its status to \<open>classified\<close>, so the event delivered again for the complaint as
  updated classifies nothing.
\<close>

theorem added_not_new_no_update:
  "(status doc \<noteq> Some ''new'' \<longrightarrow> on_snapshot [(ADDED, doc)] e = (Inr (), e))
   \<and> (status doc = Some ''classified'' \<longrightarrow> issued (snd (on_snapshot [(ADDED, doc)] e)) = issued e)
   \<and> ((\<forall>c\<in>set changes. fst c = ADDED \<and> status (snd c) \<noteq> Some ''new'') \<longrightarrow>
        on_snapshot changes e = (Inr (), e))
   \<and> (status doc = Some ''new'' \<longrightarrow>
        (\<exists>u. issued (snd (on_snapshot [(ADDED, doc)] e)) = issued e @ [(doc_id doc, u)]
             \<and> map_of u ''status'' = Some (VStr ''classified'')))"
proof (intro conjI impI)
  show "on_snapshot [(ADDED, doc)] e = (Inr (), e)" if "status doc \<noteq> Some ''new''"
    using that by (simp add: on_snapshot_single on_change_added_not_new)
  show "issued (snd (on_snapshot [(ADDED, doc)] e)) = issued e" if "status doc = Some ''classified''"
    using that by (simp add: on_snapshot_single on_change_added_not_new)
  show "on_snapshot changes e = (Inr (), e)"
    if "\<forall>c\<in>set changes. fst c = ADDED \<and> status (snd c) \<noteq> Some ''new''"
    using that
  proof (induction changes)
    case Nil
    then show ?case by simp
  next
    case (Cons c cs)
    obtain type doc' where c: "c = (type, doc')" by (cases c)
    have "on_change c e = (Inr (), e)"
      using Cons.prems by (simp add: c on_change_added_not_new)
    then show ?case using Cons by simp
  qed
  show "\<exists>u. issued (snd (on_snapshot [(ADDED, doc)] e)) = issued e @ [(doc_id doc, u)]
             \<and> map_of u ''status'' = Some (VStr ''classified'')"
    if new: "status doc = Some ''new''"
  proof -
    let ?text = "clean (case description doc of None \<Rightarrow> [] | Some d \<Rightarrow> d)"
    obtain department dept_conf where d: "predict_department ?text = Inr (department, dept_conf)"
      using predict_department_first_max [of ?text] by blast
    obtain priority pr_conf where p: "predict_priority ?text = Inr (priority, pr_conf)"
      using predict_priority_first_max [of ?text] by blast
    show ?thesis
      unfolding on_snapshot_single on_change_added_new [OF new d p] by simp
  qed
qed

theorem added_not_new_no_update_witness:
  "Some ''classified'' \<noteq> Some ''new''
   \<and> on_snapshot
       [(ADDED, \<lparr>doc_id = ''c1'', status = Some ''classified'',
                  description = Some (str ''no water''), actions = None, deadline = None\<rparr>),
        (ADDED, \<lparr>doc_id = ''c1'', status = Some ''classified'',
                  description = Some (str ''no water''), actions = None, deadline = None\<rparr>)]
       \<lparr>clock = (\<lambda>n. 1000 + int n), reads = 0, issued = []\<rparr>
     = (Inr (), \<lparr>clock = (\<lambda>n. 1000 + int n), reads = 0, issued = []\<rparr>)"
  using added_not_new_no_update
    [of "\<lparr>doc_id = ''c1'', status = Some ''classified'',
          description = Some (str ''no water''), actions = None, deadline = None\<rparr>"
        "\<lparr>clock = (\<lambda>n. 1000 + int n), reads = 0, issued = []\<rparr>"
        "[(ADDED, \<lparr>doc_id = ''c1'', status = Some ''classified'',
                  description = Some (str ''no water''), actions = None, deadline = None\<rparr>),
          (ADDED, \<lparr>doc_id = ''c1'', status = Some ''classified'',
                  description = Some (str ''no water''), actions = None, deadline = None\<rparr>)]"]
  by simp

text \<open>
  C6. A MODIFIED event issues an update exactly when the status is neither \<open>resolved\<close>
  nor \<open>under_action\<close> and there is a deadline that the clock has passed, and that
  update sets \<open>overdue\<close> to true and nothing else. With status \<open>under_action\<close> nothing
  is issued, whatever the deadline. No update of any batch sets \<open>overdue\<close> to false.
\<close>

theorem modified_overdue_update:
  "issued (snd (on_snapshot [(MODIFIED, doc)] e)) =
     (if status doc \<noteq> Some ''resolved'' \<and> status doc \<noteq> Some ''under_action''
         \<and> (\<exists>d. deadline doc = Some d \<and> wall d < clock e (reads e))
      then issued e @ [(doc_id doc, [(''overdue'', VBool True)])]
      else issued e)
   \<and> (status doc = Some ''under_action'' \<longrightarrow> on_snapshot [(MODIFIED, doc)] e = (Inr (), e))
   \<and> (\<exists>us. issued (snd (on_snapshot changes e)) = issued e @ us
           \<and> (\<forall>u\<in>set us. map_of (snd u) ''overdue'' \<noteq> Some (VBool False)))"
proof (intro conjI impI)
  show "issued (snd (on_snapshot [(MODIFIED, doc)] e)) =
     (if status doc \<noteq> Some ''resolved'' \<and> status doc \<noteq> Some ''under_action''
         \<and> (\<exists>d. deadline doc = Some d \<and> wall d < clock e (reads e))
      then issued e @ [(doc_id doc, [(''overdue'', VBool True)])]
      else issued e)"
    by (cases "deadline doc") (auto simp: on_snapshot_single on_change_modified)
  show "on_snapshot [(MODIFIED, doc)] e = (Inr (), e)" if "status doc = Some ''under_action''"
    using that by (simp add: on_snapshot_single on_change_modified)
  show "\<exists>us. issued (snd (on_snapshot changes e)) = issued e @ us
           \<and> (\<forall>u\<in>set us. map_of (snd u) ''overdue'' \<noteq> Some (VBool False))"
    using on_snapshot_issued [of changes e] by blast
qed

theorem modified_overdue_update_witness:
  "on_snapshot
     [(MODIFIED, \<lparr>doc_id = ''c1'', status = Some ''under_action'', description = None,
                   actions = None, deadline = Some \<lparr>wall = 5, tzinfo = Some 0\<rparr>\<rparr>)]
     \<lparr>clock = (\<lambda>n. 1000 + int n), reads = 0, issued = []\<rparr>
     = (Inr (), \<lparr>clock = (\<lambda>n. 1000 + int n), reads = 0, issued = []\<rparr>)
   \<and> issued (snd (on_snapshot
        [(MODIFIED, \<lparr>doc_id = ''c2'', status = Some ''classified'', description = None,
                      actions = None, deadline = Some \<lparr>wall = 5, tzinfo = Some 0\<rparr>\<rparr>)]
        \<lparr>clock = (\<lambda>n. 1000 + int n), reads = 0, issued = []\<rparr>))
     = [(''c2'', [(''overdue'', VBool True)])]"
  using modified_overdue_update
    [of "\<lparr>doc_id = ''c1'', status = Some ''under_action'', description = None,
          actions = None, deadline = Some \<lparr>wall = 5, tzinfo = Some 0\<rparr>\<rparr>"
        "\<lparr>clock = (\<lambda>n. 1000 + int n), reads = 0, issued = []\<rparr>" "[]"]
    modified_overdue_update
    [of "\<lparr>doc_id = ''c2'', status = Some ''classified'', description = None,
          actions = None, deadline = Some \<lparr>wall = 5, tzinfo = Some 0\<rparr>\<rparr>"
        "\<lparr>clock = (\<lambda>n. 1000 + int n), reads = 0, issued = []\<rparr>" "[]"]
  by simp

text \<open>
  C9, at the input where the code departs from it. The update of the ADDED branch
  carries \<open>lastUpdated\<close>; the update that the MODIFIED branch issues for a complaint
  past its deadline is the single field \<open>overdue\<close>, without \<open>lastUpdated\<close>.
\<close>

theorem overdue_update_lacks_lastUpdated:
  "issued (snd (on_snapshot
     [(MODIFIED, \<lparr>doc_id = ''c1'', status = Some ''classified'',
                   description = Some (str ''no water''), actions = None,
                   deadline = Some \<lparr>wall = 5, tzinfo = Some 0\<rparr>\<rparr>)]
     \<lparr>clock = (\<lambda>n. 1000 + int n), reads = 0, issued = []\<rparr>))
     = [(''c1'', [(''overdue'', VBool True)])]
   \<and> map_of [(''overdue'', VBool True)] ''lastUpdated'' = None"
  by (simp add: on_snapshot_single on_change_modified)

lemma first_max_zero:
  assumes "table \<noteq> []" "\<forall>x\<in>set (scores_of table text). snd x = 0"
  shows "first_max table text 0"
proof -
  have "keyword_score text (snd (table ! j)) = 0" if "j < length table" for j
  proof -
    have "scores_of table text ! j \<in> set (scores_of table text)"
      using that by (simp add: scores_of_def)
    then have "snd (scores_of table text ! j) = 0" using assms(2) by blast
    then show ?thesis using that by (simp add: scores_of_nth)
  qed
  then show ?thesis using assms(1) by (simp add: first_max_def)
qed

text \<open>
  C10. An ADDED event for a complaint with status \<open>new\<close> and no description does not
  raise. The text is empty, every category scores 0, and in both tables the first
  category is the first maximum: the update sets Water with confidence 0, High with
  confidence 0, and the deadline 24 hours after the reading of the clock.
\<close>

theorem added_without_description:
  assumes "status doc = Some ''new''" and "description doc = None"
  shows "on_snapshot [(ADDED, doc)] e =
    (Inr (),
     e\<lparr>reads := reads e + 3,
       issued := issued e @
         [(doc_id doc,
           [(''department'', VStr ''Water''),
            (''departmentConfidence'', VInt 0),
            (''priority'', VStr ''High''),
            (''priorityConfidence'', VInt 0),
            (''status'', VStr ''classified''),
            (''deadline'', VTime \<lparr>wall = clock e (reads e) + 24 * 3600 * 1000000, tzinfo = None\<rparr>),
            (''actions'', VActions
               ((case actions doc of None \<Rightarrow> [] | Some a \<Rightarrow> a) @
                [\<lparr>entry_action = ''AI classified as High priority for Water department'',
                  entry_timestamp = \<lparr>wall = clock e (reads e + 1), tzinfo = None\<rparr>,
                  entry_by = ''AI System''\<rparr>])),
            (''lastUpdated'', VTime \<lparr>wall = clock e (reads e + 2), tzinfo = None\<rparr>)])]\<rparr>)
    \<and> clean (case description doc of None \<Rightarrow> [] | Some d \<Rightarrow> d) = []
    \<and> map snd (scores_of KEYWORDS []) = [0, 0, 0, 0, 0, 0]
    \<and> map snd (scores_of PRIORITY_KEYWORDS []) = [0, 0, 0]
    \<and> first_max KEYWORDS [] 0 \<and> first_max PRIORITY_KEYWORDS [] 0"
proof (intro conjI)
  have d: "predict_department (clean (case description doc of None \<Rightarrow> [] | Some d \<Rightarrow> d))
      = Inr (''Water'', 0)"
    by (simp add: assms(2) clean_empty predict_empty)
  have p: "predict_priority (clean (case description doc of None \<Rightarrow> [] | Some d \<Rightarrow> d))
      = Inr (''High'', 0)"
    by (simp add: assms(2) clean_empty predict_empty)
  have dl: "fst (set_deadline ''High'' e)
      = \<lparr>wall = clock e (reads e) + 24 * 3600 * 1000000, tzinfo = None\<rparr>"
    by (simp add: set_deadline_def datetime_now_def dt_add_def timedelta_def)
  show "on_snapshot [(ADDED, doc)] e =
    (Inr (),
     e\<lparr>reads := reads e + 3,
       issued := issued e @
         [(doc_id doc,
           [(''department'', VStr ''Water''),
            (''departmentConfidence'', VInt 0),
            (''priority'', VStr ''High''),
            (''priorityConfidence'', VInt 0),
            (''status'', VStr ''classified''),
            (''deadline'', VTime \<lparr>wall = clock e (reads e) + 24 * 3600 * 1000000, tzinfo = None\<rparr>),
            (''actions'', VActions
               ((case actions doc of None \<Rightarrow> [] | Some a \<Rightarrow> a) @
                [\<lparr>entry_action = ''AI classified as High priority for Water department'',
                  entry_timestamp = \<lparr>wall = clock e (reads e + 1), tzinfo = None\<rparr>,
                  entry_by = ''AI System''\<rparr>])),
            (''lastUpdated'', VTime \<lparr>wall = clock e (reads e + 2), tzinfo = None\<rparr>)])]\<rparr>)"
    unfolding on_snapshot_single on_change_added_new [OF assms(1) d p] dl by simp
  show "clean (case description doc of None \<Rightarrow> [] | Some d \<Rightarrow> d) = []"
    by (simp add: assms(2) clean_empty)
  show "map snd (scores_of KEYWORDS []) = [0, 0, 0, 0, 0, 0]"
    by (simp add: scores_empty)
  show "map snd (scores_of PRIORITY_KEYWORDS []) = [0, 0, 0]"
    by (simp add: scores_empty)
  show "first_max KEYWORDS [] 0"
    by (rule first_max_zero) (simp_all add: KEYWORDS_keys scores_empty)
  show "first_max PRIORITY_KEYWORDS [] 0"
    by (rule first_max_zero) (simp_all add: PRIORITY_KEYWORDS_keys scores_empty)
qed

theorem added_without_description_witness:
  "on_snapshot
     [(ADDED, \<lparr>doc_id = ''c7'', status = Some ''new'', description = None,
                actions = Some [\<lparr>entry_action = ''submitted'',
                                 entry_timestamp = \<lparr>wall = 900, tzinfo = None\<rparr>,
                                 entry_by = ''citizen''\<rparr>],
                deadline = None\<rparr>)]
     \<lparr>clock = (\<lambda>n. 1000 + int n), reads = 0, issued = []\<rparr> =
   (Inr (),
    \<lparr>clock = (\<lambda>n. 1000 + int n), reads = 3,
     issued =
       [(''c7'',
         [(''department'', VStr ''Water''),
          (''departmentConfidence'', VInt 0),
          (''priority'', VStr ''High''),
          (''priorityConfidence'', VInt 0),
          (''status'', VStr ''classified''),
          (''deadline'', VTime \<lparr>wall = 86400001000, tzinfo = None\<rparr>),
          (''actions'', VActions
             [\<lparr>entry_action = ''submitted'',
               entry_timestamp = \<lparr>wall = 900, tzinfo = None\<rparr>,
               entry_by = ''citizen''\<rparr>,
              \<lparr>entry_action = ''AI classified as High priority for Water department'',
               entry_timestamp = \<lparr>wall = 1001, tzinfo = None\<rparr>,
               entry_by = ''AI System''\<rparr>]),
          (''lastUpdated'', VTime \<lparr>wall = 1002, tzinfo = None\<rparr>)])]\<rparr>)"
  using added_without_description
    [of "\<lparr>doc_id = ''c7'', status = Some ''new'', description = None,
          actions = Some [\<lparr>entry_action = ''submitted'',
                           entry_timestamp = \<lparr>wall = 900, tzinfo = None\<rparr>,
                           entry_by = ''citizen''\<rparr>],
          deadline = None\<rparr>"
        "\<lparr>clock = (\<lambda>n. 1000 + int n), reads = 0, issued = []\<rparr>"]
  by simp

end
